theory Spec2Isabelle
  imports Main
begin

section \<open>SeleniumURLLoader (langchain/document\_loaders/url\_selenium.py)\<close>

text \<open>
  The loader drives two external libraries: selenium (a browser session) and unstructured
  (the HTML partitioner). Neither is part of the source file, so both are parameters of the
  model: a record of functions, each returning what the call returns or the exception it
  raises, and threading the state of the browser session. Everything the loader itself does
  (the branch on the browser name, the loop over the URLs, the \<open>try/except\<close>, the call of
  \<open>driver.quit()\<close>) is translated from the source.
\<close>

subsection \<open>Exceptions\<close>

text \<open>
  \<open>except Exception\<close> catches the instances of \<open>Exception\<close> only; \<open>KeyboardInterrupt\<close>,
  \<open>SystemExit\<close> and \<open>GeneratorExit\<close> derive from \<open>BaseException\<close> directly and pass through.
  \<open>except ImportError\<close> catches \<open>ImportError\<close> (and its subclass \<open>ModuleNotFoundError\<close>).
\<close>

datatype exn =
    ValueError string
  | ImportError string
  | OtherException string
  | BaseExceptionOnly string

fun is_Exception :: "exn \<Rightarrow> bool" where
  "is_Exception (BaseExceptionOnly m) = False"
| "is_Exception e = True"

fun is_ImportError :: "exn \<Rightarrow> bool" where
  "is_ImportError (ImportError m) = True"
| "is_ImportError e = False"

subsection \<open>Data model\<close>

text \<open>\<open>Document(page_content=text, metadata={"source": url})\<close>; the metadata is a dict.\<close>

record document =
  page_content :: string
  metadata :: "string \<rightharpoonup> string"

text \<open>The attributes of a \<open>SeleniumURLLoader\<close> object, as \<open>__init__\<close> assigns them.\<close>

record loader =
  urls :: "string list"
  continue_on_failure :: bool
  browser :: string
  executable_path :: "string option"
  headless :: bool

datatype browser_kind = Chrome | Firefox

text \<open>
  The calls that leave the loader, in the order they are made: the constructor of the
  webdriver (with the arguments added to its options and the \<open>executable_path\<close> keyword,
  \<open>None\<close> when it is not passed), \<open>driver.get(url)\<close>, \<open>driver.quit()\<close> and
  \<open>logger.error(...)\<close> with its message.
\<close>

datatype event =
    Launch browser_kind "string list" "string option"
  | Get string
  | Quit
  | LoggerError string

text \<open>The program state: the loader object \<open>self\<close> and the calls made so far.\<close>

record state =
  this :: loader
  trace :: "event list"

subsection \<open>The external libraries\<close>

text \<open>
  \<open>'d\<close> is the state of a browser session, \<open>'el\<close> the type of the elements the partitioner
  returns. An import gives \<open>None\<close> when it succeeds and \<open>Some e\<close> when it raises \<open>e\<close>.
  \<open>new_driver\<close> stands for the imports from \<open>selenium.webdriver\<close>, the construction of the
  options object and the call \<open>Chrome(...)\<close> or \<open>Firefox(...)\<close>. \<open>str_exn\<close> is what the
  f-string of the log message makes of the caught exception (its \<open>__str__\<close>, which may
  raise), \<open>logger_error\<close> the call \<open>logger.error(message)\<close>.
\<close>

record ('d, 'el) env =
  import_selenium :: "exn option"
  import_unstructured :: "exn option"
  import_partition_html :: "exn option"
  new_driver :: "browser_kind \<Rightarrow> string list \<Rightarrow> string option \<Rightarrow> exn + 'd"
  driver_get :: "'d \<Rightarrow> string \<Rightarrow> exn option \<times> 'd"
  page_source :: "'d \<Rightarrow> (exn + string) \<times> 'd"
  partition_html :: "string \<Rightarrow> exn + 'el list"
  str_el :: "'el \<Rightarrow> exn + string"
  driver_quit :: "'d \<Rightarrow> exn option \<times> 'd"
  str_exn :: "exn \<Rightarrow> exn + string"
  logger_error :: "string \<Rightarrow> exn option"

subsection \<open>Strings\<close>

text \<open>
  \<open>str.lower()\<close> on the ASCII letters. No code point outside ASCII is lowered by Python to one
  of the letters of \<open>chrome\<close> or \<open>firefox\<close>, so the comparisons of \<open>_get_driver\<close> are the
  same on the bytes of a string.
\<close>

definition lower_char :: "char \<Rightarrow> char" where
  "lower_char c =
     (let n = (of_char c :: nat) in if 65 \<le> n \<and> n \<le> 90 then char_of (n + 32) else c)"

definition lower :: "string \<Rightarrow> string" where
  "lower s = map lower_char s"

text \<open>\<open>sep.join(xs)\<close>.\<close>

fun join :: "string \<Rightarrow> string list \<Rightarrow> string" where
  "join sep [] = []"
| "join sep [x] = x"
| "join sep (x # y # ys) = x @ sep @ join sep (y # ys)"

subsection \<open>\<open>__init__\<close>\<close>

definition selenium_not_found :: string where
  "selenium_not_found =
     ''selenium package not found, please install it with `pip install selenium`''"

definition unstructured_not_found :: string where
  "unstructured_not_found =
     ''unstructured package not found, please install it with `pip install unstructured`''"

definition init ::
  "('d, 'el) env \<Rightarrow> string list \<Rightarrow> bool \<Rightarrow> string \<Rightarrow> string option \<Rightarrow> bool \<Rightarrow> exn + loader"
where
  "init env us cof b ep h =
     (case import_selenium env of
        Some e \<Rightarrow> if is_ImportError e then Inl (ValueError selenium_not_found) else Inl e
      | None \<Rightarrow>
         (case import_unstructured env of
            Some e \<Rightarrow> if is_ImportError e then Inl (ValueError unstructured_not_found) else Inl e
          | None \<Rightarrow>
              Inr \<lparr>urls = us, continue_on_failure = cof, browser = b,
                   executable_path = ep, headless = h\<rparr>))"

subsection \<open>\<open>_get_driver\<close>\<close>

definition invalid_browser :: string where
  "invalid_browser = ''Invalid browser specified. Use 'chrome' or 'firefox'.''"

text \<open>The arguments added to the options object: \<open>--headless\<close> when \<open>self.headless\<close>.\<close>

definition options_arguments :: "loader \<Rightarrow> string list" where
  "options_arguments self = (if headless self then [''--headless''] else [])"

definition launch ::
  "('d, 'el) env \<Rightarrow> browser_kind \<Rightarrow> state \<Rightarrow> (exn + 'd) \<times> state"
where
  "launch env k s =
     (new_driver env k (options_arguments (this s)) (executable_path (this s)),
      s\<lparr>trace := trace s @ [Launch k (options_arguments (this s)) (executable_path (this s))]\<rparr>)"

definition get_driver :: "('d, 'el) env \<Rightarrow> state \<Rightarrow> (exn + 'd) \<times> state" where
  "get_driver env s =
     (if lower (browser (this s)) = ''chrome'' then launch env Chrome s
      else if lower (browser (this s)) = ''firefox'' then launch env Firefox s
      else (Inl (ValueError invalid_browser), s))"

subsection \<open>\<open>load\<close>\<close>

text \<open>\<open>[str(el) for el in elements]\<close>: left to right, stopping at the first exception.\<close>

fun str_all :: "('d, 'el) env \<Rightarrow> 'el list \<Rightarrow> exn + string list" where
  "str_all env [] = Inr []"
| "str_all env (el # els) =
     (case str_el env el of
        Inl e \<Rightarrow> Inl e
      | Inr t \<Rightarrow> (case str_all env els of Inl e \<Rightarrow> Inl e | Inr ts \<Rightarrow> Inr (t # ts)))"

definition blank_line :: string where
  "blank_line = [CHR 0x0A, CHR 0x0A]"

text \<open>\<open>metadata = {"source": url}\<close>.\<close>

definition source_metadata :: "string \<Rightarrow> (string \<rightharpoonup> string)" where
  "source_metadata url = [''source'' \<mapsto> url]"

text \<open>
  The body of the \<open>try\<close> for one URL, up to the Document that \<open>docs.append\<close> receives: the
  exception raised by the first step that fails, or the Document, and the session after it.
\<close>

definition fetch_document ::
  "('d, 'el) env \<Rightarrow> 'd \<Rightarrow> string \<Rightarrow> (exn + document) \<times> 'd"
where
  "fetch_document env d url =
     (case driver_get env d url of
        (Some e, d1) \<Rightarrow> (Inl e, d1)
      | (None, d1) \<Rightarrow>
         (case page_source env d1 of
            (Inl e, d2) \<Rightarrow> (Inl e, d2)
          | (Inr html, d2) \<Rightarrow>
             (case partition_html env html of
                Inl e \<Rightarrow> (Inl e, d2)
              | Inr elements \<Rightarrow>
                 (case str_all env elements of
                    Inl e \<Rightarrow> (Inl e, d2)
                  | Inr ts \<Rightarrow>
                     (Inr \<lparr>page_content = join blank_line ts,
                           metadata = source_metadata url\<rparr>, d2)))))"

text \<open>
  \<open>logger.error(f"Error fetching or processing {url}, exception: {e}")\<close>, inside the
  \<open>except\<close> block: the message is built first, then the logger is called; an exception
  raised by either leaves the handler, and \<open>load\<close> with it.
\<close>

definition error_message :: "string \<Rightarrow> string \<Rightarrow> string" where
  "error_message url m = ''Error fetching or processing '' @ url @ '', exception: '' @ m"

definition log_failure ::
  "('d, 'el) env \<Rightarrow> string \<Rightarrow> exn \<Rightarrow> state \<Rightarrow> exn option \<times> state"
where
  "log_failure env url e s =
     (case str_exn env e of
        Inl e' \<Rightarrow> (Some e', s)
      | Inr m \<Rightarrow>
          (logger_error env (error_message url m),
           s\<lparr>trace := trace s @ [LoggerError (error_message url m)]\<rparr>))"

text \<open>
  The \<open>for\<close> loop with its \<open>try/except\<close>. The loop state is the session, the list \<open>docs\<close>
  and the program state; the result is \<open>Some e\<close> when \<open>e\<close> leaves the loop.
\<close>

fun load_loop ::
  "('d, 'el) env \<Rightarrow> string list \<Rightarrow> 'd \<times> document list \<times> state
     \<Rightarrow> exn option \<times> 'd \<times> document list \<times> state"
where
  "load_loop env [] (d, docs, s) = (None, d, docs, s)"
| "load_loop env (url # rest) (d, docs, s) =
     (case fetch_document env d url of
        (Inr doc, d') \<Rightarrow>
          load_loop env rest (d', docs @ [doc], s\<lparr>trace := trace s @ [Get url]\<rparr>)
      | (Inl e, d') \<Rightarrow>
          if is_Exception e then
            if continue_on_failure (this s) then
              (case log_failure env url e (s\<lparr>trace := trace s @ [Get url]\<rparr>) of
                 (Some e', s') \<Rightarrow> (Some e', d', docs, s')
               | (None, s') \<Rightarrow> load_loop env rest (d', docs, s'))
            else (Some e, d', docs, s\<lparr>trace := trace s @ [Get url]\<rparr>)
          else (Some e, d', docs, s\<lparr>trace := trace s @ [Get url]\<rparr>))"

definition load :: "('d, 'el) env \<Rightarrow> state \<Rightarrow> (exn + document list) \<times> state" where
  "load env s =
     (case import_partition_html env of
        Some e \<Rightarrow> (Inl e, s)
      | None \<Rightarrow>
         (case get_driver env s of
            (Inl e, s1) \<Rightarrow> (Inl e, s1)
          | (Inr d, s1) \<Rightarrow>
             (case load_loop env (urls (this s1)) (d, [], s1) of
                (Some e, d', docs, s2) \<Rightarrow> (Inl e, s2)
              | (None, d', docs, s2) \<Rightarrow>
                 (case driver_quit env d' of
                    (Some e, d'') \<Rightarrow> (Inl e, s2\<lparr>trace := trace s2 @ [Quit]\<rparr>)
                  | (None, d'') \<Rightarrow> (Inr docs, s2\<lparr>trace := trace s2 @ [Quit]\<rparr>)))))"

subsection \<open>The run of the loop, URL by URL\<close>

text \<open>
  What each URL of a list gives when the URLs are fetched in order on one session, each
  from the session the one before it left: the outcomes, the session after the last URL,
  the Documents of the URLs that succeeded, the URLs that succeeded, and the calls made.
  A failure is logged when the message is built and \<open>logger.error\<close> returns. An outcome is
  skippable when the loop goes on after it: a Document, or an exception that
  \<open>except Exception\<close> catches while \<open>continue_on_failure\<close> is set and that is logged.
\<close>

fun outcomes :: "('d, 'el) env \<Rightarrow> 'd \<Rightarrow> string list \<Rightarrow> (exn + document) list" where
  "outcomes env d [] = []"
| "outcomes env d (u # us) = fst (fetch_document env d u) # outcomes env (snd (fetch_document env d u)) us"

fun final_session :: "('d, 'el) env \<Rightarrow> 'd \<Rightarrow> string list \<Rightarrow> 'd" where
  "final_session env d [] = d"
| "final_session env d (u # us) = final_session env (snd (fetch_document env d u)) us"

fun successes :: "(exn + 'a) list \<Rightarrow> 'a list" where
  "successes [] = []"
| "successes (Inr x # rs) = x # successes rs"
| "successes (Inl e # rs) = successes rs"

fun survivors :: "string list \<Rightarrow> (exn + 'a) list \<Rightarrow> string list" where
  "survivors (u # us) (Inr x # rs) = u # survivors us rs"
| "survivors (u # us) (Inl e # rs) = survivors us rs"
| "survivors us rs = []"

definition logged :: "('d, 'el) env \<Rightarrow> string \<Rightarrow> exn \<Rightarrow> bool" where
  "logged env url e =
     (case str_exn env e of
        Inl e' \<Rightarrow> False
      | Inr m \<Rightarrow> logger_error env (error_message url m) = None)"

definition log_events :: "('d, 'el) env \<Rightarrow> string \<Rightarrow> exn \<Rightarrow> event list" where
  "log_events env url e =
     (case str_exn env e of
        Inl e' \<Rightarrow> []
      | Inr m \<Rightarrow> [LoggerError (error_message url m)])"

fun loop_events :: "('d, 'el) env \<Rightarrow> string list \<Rightarrow> (exn + 'a) list \<Rightarrow> event list" where
  "loop_events env (u # us) (Inr x # rs) = Get u # loop_events env us rs"
| "loop_events env (u # us) (Inl e # rs) = Get u # log_events env u e @ loop_events env us rs"
| "loop_events env us rs = []"

fun skippable :: "('d, 'el) env \<Rightarrow> bool \<Rightarrow> string \<Rightarrow> (exn + 'a) \<Rightarrow> bool" where
  "skippable env cof u (Inr x) = True"
| "skippable env cof u (Inl e) = (is_Exception e \<and> cof \<and> logged env u e)"

fun navigated :: "event list \<Rightarrow> string list" where
  "navigated [] = []"
| "navigated (Get u # evs) = u # navigated evs"
| "navigated (ev # evs) = navigated evs"

subsection \<open>A test double\<close>

text \<open>
  A session that fails to navigate to \<open>https://bad.test\<close> and shows every other URL, with a
  partitioner that returns a title and the page, exceptions whose string is their message
  and a logger that returns; the loader of the example, with the URLs \<open>https://a.test\<close>,
  \<open>https://bad.test\<close>, \<open>https://b.test\<close>.
\<close>

fun exn_message :: "exn \<Rightarrow> string" where
  "exn_message (ValueError m) = m"
| "exn_message (ImportError m) = m"
| "exn_message (OtherException m) = m"
| "exn_message (BaseExceptionOnly m) = m"

definition stub_env :: "(string, string) env" where
  "stub_env =
     \<lparr>import_selenium = None, import_unstructured = None, import_partition_html = None,
      new_driver = (\<lambda>k args p. Inr ''about:blank''),
      driver_get = (\<lambda>d u. (if u = ''https://bad.test'' then Some (OtherException ''unreachable'') else None, u)),
      page_source = (\<lambda>d. (Inr d, d)),
      partition_html = (\<lambda>html. Inr [''Title'', html]),
      str_el = Inr,
      driver_quit = (\<lambda>d. (None, d)),
      str_exn = (\<lambda>e. Inr (exn_message e)),
      logger_error = (\<lambda>m. None)\<rparr>"

definition example_loader :: "bool \<Rightarrow> string \<Rightarrow> loader" where
  "example_loader cof b =
     \<lparr>urls = [''https://a.test'', ''https://bad.test'', ''https://b.test''],
      continue_on_failure = cof, browser = b, executable_path = None, headless = True\<rparr>"

definition example_state :: "bool \<Rightarrow> string \<Rightarrow> state" where
  "example_state cof b = \<lparr>this = example_loader cof b, trace = []\<rparr>"

definition page_of :: "string \<Rightarrow> document" where
  "page_of u =
     \<lparr>page_content = ''Title'' @ [CHR 0x0A, CHR 0x0A] @ u, metadata = [''source'' \<mapsto> u]\<rparr>"

text \<open>
  Three variants: a session whose \<open>quit()\<close> raises, exceptions whose \<open>__str__\<close> raises, and
  a session that the failed navigation kills, so that every later navigation fails too.
\<close>

definition quit_fails_env :: "(string, string) env" where
  "quit_fails_env =
     stub_env\<lparr>driver_quit := (\<lambda>d. (Some (OtherException ''invalid session id''), d))\<rparr>"

definition str_fails_env :: "(string, string) env" where
  "str_fails_env = stub_env\<lparr>str_exn := (\<lambda>e. Inl (OtherException ''__str__ failed''))\<rparr>"


section \<open>Properties\<close>

subsection \<open>Logging a failure\<close>

lemma navigated_append: "navigated (xs @ ys) = navigated xs @ navigated ys"
  by (induction xs rule: navigated.induct) simp_all

lemma log_failure_this: "log_failure env u e s = (r, s') \<Longrightarrow> this s' = this s"
  by (auto simp: log_failure_def split: sum.splits)

lemma log_failure_logged:
  "logged env u e \<Longrightarrow>
   log_failure env u e s = (None, s\<lparr>trace := trace s @ log_events env u e\<rparr>)"
  by (auto simp: log_failure_def logged_def log_events_def split: sum.splits)

lemma log_failure_None: "log_failure env u e s = (None, s') \<Longrightarrow> logged env u e"
  by (auto simp: log_failure_def logged_def split: sum.splits)

lemma log_failure_navigated:
  "log_failure env u e s = (r, s') \<Longrightarrow> navigated (trace s') = navigated (trace s)"
  by (auto simp: log_failure_def navigated_append split: sum.splits)

lemma log_events_navigated: "navigated (log_events env u e) = []"
  by (simp add: log_events_def split: sum.splits)

lemma log_events_no_quit: "count_list (log_events env u e) Quit = 0"
  by (simp add: log_events_def split: sum.splits)

subsection \<open>The loop\<close>

lemma load_loop_this:
  "load_loop env us (d, docs, s) = (r, d', docs', s') \<Longrightarrow> this s' = this s"
proof (induction us arbitrary: d docs s)
  case Nil
  then show ?case by simp
next
  case (Cons u us)
  obtain oc d1 where f: "fetch_document env d u = (oc, d1)" by (cases "fetch_document env d u")
  let ?s1 = "s\<lparr>trace := trace s @ [Get u]\<rparr>"
  show ?case
  proof (cases oc)
    case (Inr doc)
    with Cons.prems f have "load_loop env us (d1, docs @ [doc], ?s1) = (r, d', docs', s')"
      by simp
    from Cons.IH [OF this] show ?thesis by simp
  next
    case (Inl e)
    show ?thesis
    proof (cases "is_Exception e \<and> continue_on_failure (this s)")
      case False
      with Cons.prems f Inl show ?thesis by (auto split: if_splits)
    next
      case True
      obtain x s2 where l: "log_failure env u e ?s1 = (x, s2)"
        by (cases "log_failure env u e ?s1")
      then have t: "this s2 = this s" using log_failure_this [OF l] by simp
      show ?thesis
      proof (cases x)
        case (Some e')
        with Cons.prems f Inl True l t show ?thesis by simp
      next
        case None
        with Cons.prems f Inl True l
        have "load_loop env us (d1, docs, s2) = (r, d', docs', s')" by simp
        from Cons.IH [OF this] t show ?thesis by simp
      qed
    qed
  qed
qed

lemma load_loop_completes:
  "list_all2 (skippable env (continue_on_failure (this s))) us (outcomes env d us) \<Longrightarrow>
   load_loop env us (d, docs, s) =
     (None, final_session env d us, docs @ successes (outcomes env d us),
      s\<lparr>trace := trace s @ loop_events env us (outcomes env d us)\<rparr>)"
proof (induction us arbitrary: d docs s)
  case Nil
  then show ?case by simp
next
  case (Cons u us)
  obtain r d1 where f: "fetch_document env d u = (r, d1)" by (cases "fetch_document env d u")
  show ?case
  proof (cases r)
    case (Inl e)
    with Cons.prems f have sk: "is_Exception e" "continue_on_failure (this s)" "logged env u e"
      and rest: "list_all2 (skippable env (continue_on_failure (this s))) us (outcomes env d1 us)"
      by auto
    let ?s1 = "s\<lparr>trace := trace s @ [Get u] @ log_events env u e\<rparr>"
    have l: "log_failure env u e (s\<lparr>trace := trace s @ [Get u]\<rparr>) = (None, ?s1)"
      using log_failure_logged [OF sk(3), of "s\<lparr>trace := trace s @ [Get u]\<rparr>"] by simp
    have "list_all2 (skippable env (continue_on_failure (this ?s1))) us (outcomes env d1 us)"
      using rest by simp
    from Cons.IH [OF this] f Inl sk l show ?thesis by simp
  next
    case (Inr doc)
    with Cons.prems f
    have rest: "list_all2 (skippable env (continue_on_failure (this s))) us (outcomes env d1 us)"
      by simp
    let ?s1 = "s\<lparr>trace := trace s @ [Get u]\<rparr>"
    have "list_all2 (skippable env (continue_on_failure (this ?s1))) us (outcomes env d1 us)"
      using rest by simp
    from Cons.IH [OF this] f Inr show ?thesis by simp
  qed
qed

lemma load_loop_None_skippable:
  "load_loop env us (d, docs, s) = (None, d', docs', s') \<Longrightarrow>
   list_all2 (skippable env (continue_on_failure (this s))) us (outcomes env d us)"
proof (induction us arbitrary: d docs s)
  case Nil
  then show ?case by simp
next
  case (Cons u us)
  obtain r d1 where f: "fetch_document env d u = (r, d1)" by (cases "fetch_document env d u")
  let ?s1 = "s\<lparr>trace := trace s @ [Get u]\<rparr>"
  show ?case
  proof (cases r)
    case (Inl e)
    with Cons.prems f have sk: "is_Exception e" "continue_on_failure (this s)"
      by (auto split: if_splits)
    obtain x s2 where l: "log_failure env u e ?s1 = (x, s2)"
      by (cases "log_failure env u e ?s1")
    with Cons.prems f Inl sk have x: "x = None"
      by (cases x) simp_all
    with l have lg: "logged env u e" by (simp add: log_failure_None)
    from l have t: "this s2 = this s" using log_failure_this [OF l] by simp
    from Cons.prems f Inl sk l x
    have "load_loop env us (d1, docs, s2) = (None, d', docs', s')" by simp
    from Cons.IH [OF this] t
    have "list_all2 (skippable env (continue_on_failure (this s))) us (outcomes env d1 us)"
      by simp
    with sk lg f Inl show ?thesis by simp
  next
    case (Inr doc)
    with Cons.prems f
    have "load_loop env us (d1, docs @ [doc], ?s1) = (None, d', docs', s')"
      by simp
    from Cons.IH [OF this]
    have "list_all2 (skippable env (continue_on_failure (this s))) us (outcomes env d1 us)"
      by simp
    with f Inr show ?thesis by simp
  qed
qed

lemma load_loop_append:
  "load_loop env (xs @ ys) (d, docs, s) =
     (case load_loop env xs (d, docs, s) of
        (None, st) \<Rightarrow> load_loop env ys st
      | (Some e, st) \<Rightarrow> (Some e, st))"
proof (induction xs arbitrary: d docs s)
  case Nil
  then show ?case by simp
next
  case (Cons u us)
  then show ?case
    by (simp split: prod.splits sum.splits option.splits)
qed

lemma load_loop_all_succeed:
  "list_all (\<lambda>r. \<not> isl r) (outcomes env d us) \<Longrightarrow>
   list_all2 (skippable env cof) us (outcomes env d us)"
proof (induction us arbitrary: d)
  case Nil
  then show ?case by simp
next
  case (Cons u us)
  then show ?case by (cases "fst (fetch_document env d u)") simp_all
qed

lemma loop_events_navigated:
  "length rs = length us \<Longrightarrow> navigated (loop_events env us rs) = us"
  by (induction env us rs rule: loop_events.induct)
    (simp_all add: navigated_append log_events_navigated)

lemma loop_events_no_quit: "count_list (loop_events env us rs) Quit = 0"
  by (induction env us rs rule: loop_events.induct) (simp_all add: log_events_no_quit)

lemma outcomes_append:
  "outcomes env d (xs @ ys) = outcomes env d xs @ outcomes env (final_session env d xs) ys"
  by (induction xs arbitrary: d) simp_all


lemma successes_append: "successes (xs @ ys) = successes xs @ successes ys"
  by (induction xs rule: successes.induct) simp_all

lemma survivors_length:
  "length rs = length us \<Longrightarrow> length (survivors us rs) = length (successes rs)"
  by (induction us rs rule: survivors.induct) simp_all

lemma length_successes: "length (successes rs) = length rs - length (filter isl rs)"
proof (induction rs rule: successes.induct)
  case (2 x rs)
  have "length (filter isl rs) \<le> length rs" by simp
  with 2 show ?case by (simp add: Suc_diff_le)
qed simp_all

lemma length_outcomes: "length (outcomes env d us) = length us"
  by (induction us arbitrary: d) simp_all

subsection \<open>One URL\<close>

lemma fetch_document_source:
  "fetch_document env d u = (Inr doc, d') \<Longrightarrow> metadata doc = source_metadata u"
  by (auto simp: fetch_document_def split: prod.splits option.splits sum.splits)

lemma str_all_Inr: "str_all env els = Inr ts \<longleftrightarrow> map (str_el env) els = map Inr ts"
proof (induction els arbitrary: ts)
  case Nil
  then show ?case by auto
next
  case (Cons el els)
  show ?case
  proof (cases "str_el env el")
    case (Inl e)
    then show ?thesis by (cases ts) auto
  next
    case (Inr t)
    show ?thesis
    proof (cases "str_all env els")
      case (Inl e)
      with Cons.IH Inr show ?thesis
        by (cases ts) auto
    next
      case r: (Inr ts')
      with Cons.IH Inr show ?thesis
        by (cases ts) auto
    qed
  qed
qed

lemma fetch_document_Inr:
  assumes "fetch_document env d u = (Inr doc, d')"
  shows "\<exists>d1 html els ts.
           driver_get env d u = (None, d1) \<and> page_source env d1 = (Inr html, d') \<and>
           partition_html env html = Inr els \<and> map (str_el env) els = map Inr ts \<and>
           doc = \<lparr>page_content = join blank_line ts, metadata = source_metadata u\<rparr>"
proof -
  from assms obtain d1 where g: "driver_get env d u = (None, d1)"
    by (auto simp: fetch_document_def split: prod.splits option.splits)
  with assms obtain html where p: "page_source env d1 = (Inr html, d')"
    by (auto simp: fetch_document_def split: prod.splits sum.splits)
  with assms g obtain els where e: "partition_html env html = Inr els"
    by (auto simp: fetch_document_def split: sum.splits)
  with assms g p obtain ts where s: "str_all env els = Inr ts"
    by (auto simp: fetch_document_def split: sum.splits)
  with assms g p e
  have "doc = \<lparr>page_content = join blank_line ts, metadata = source_metadata u\<rparr>"
    by (simp add: fetch_document_def)
  moreover from s have "map (str_el env) els = map Inr ts"
    by (simp add: str_all_Inr)
  ultimately show ?thesis using g p e by blast
qed

lemma fetch_document_steps:
  assumes "driver_get env d u = (None, d1)" and "page_source env d1 = (Inr html, d2)"
    and "partition_html env html = Inr els" and "map (str_el env) els = map Inr ts"
  shows "fetch_document env d u =
           (Inr \<lparr>page_content = join blank_line ts, metadata = source_metadata u\<rparr>, d2)"
proof -
  from assms(4) have "str_all env els = Inr ts" by (simp add: str_all_Inr)
  with assms(1-3) show ?thesis by (simp add: fetch_document_def)
qed

text \<open>
  A URL fails exactly when one of the four steps raises: the navigation, the reading of
  the page source, the partitioner, or the strings of the elements.
\<close>

lemma fetch_document_Inl:
  "fst (fetch_document env d u) = Inl e \<longleftrightarrow>
     (\<exists>d1. driver_get env d u = (Some e, d1)) \<or>
     (\<exists>d1 d2. driver_get env d u = (None, d1) \<and> page_source env d1 = (Inl e, d2)) \<or>
     (\<exists>d1 d2 html. driver_get env d u = (None, d1) \<and> page_source env d1 = (Inr html, d2) \<and>
        partition_html env html = Inl e) \<or>
     (\<exists>d1 d2 html els. driver_get env d u = (None, d1) \<and> page_source env d1 = (Inr html, d2) \<and>
        partition_html env html = Inr els \<and> str_all env els = Inl e)"
proof -
  obtain g d1 where g: "driver_get env d u = (g, d1)" by (cases "driver_get env d u")
  show ?thesis
  proof (cases g)
    case (Some e')
    with g show ?thesis by (simp add: fetch_document_def)
  next
    case None
    obtain p d2 where p: "page_source env d1 = (p, d2)" by (cases "page_source env d1")
    show ?thesis
    proof (cases p)
      case (Inl e')
      with g None p show ?thesis by (simp add: fetch_document_def)
    next
      case (Inr html)
      show ?thesis
      proof (cases "partition_html env html")
        case (Inl e')
        with g None p Inr show ?thesis by (simp add: fetch_document_def)
      next
        case els: (Inr els)
        with g None p Inr show ?thesis
          by (cases "str_all env els") (simp_all add: fetch_document_def)
      qed
    qed
  qed
qed

lemma successes_metadata:
  "map metadata (successes (outcomes env d us)) =
   map source_metadata (survivors us (outcomes env d us))"
proof (induction us arbitrary: d)
  case Nil
  then show ?case by simp
next
  case (Cons u us)
  obtain r d1 where f: "fetch_document env d u = (r, d1)" by (cases "fetch_document env d u")
  show ?case
  proof (cases r)
    case (Inl e)
    with f Cons.IH [of d1] show ?thesis by simp
  next
    case (Inr doc)
    with f fetch_document_source [of env d u doc d1] Cons.IH [of d1] show ?thesis by simp
  qed
qed

lemma str_all_cong: "str_el env' = str_el env \<Longrightarrow> str_all env' els = str_all env els"
  by (induction els) (simp_all split: sum.splits)

lemma fetch_document_cong:
  assumes "driver_get env' = driver_get env" and "page_source env' = page_source env"
    and "partition_html env' = partition_html env" and "str_el env' = str_el env"
  shows "fetch_document env' d u = fetch_document env d u"
  unfolding fetch_document_def assms(1) assms(2) assms(3) str_all_cong [OF assms(4)]
  by (rule refl)

subsection \<open>The whole of \<open>load\<close>\<close>

lemma get_driver_this: "get_driver env s = (r, s1) \<Longrightarrow> this s1 = this s"
  by (auto simp: get_driver_def launch_def split: if_splits)

lemma get_driver_navigated: "get_driver env s = (r, s1) \<Longrightarrow> navigated (trace s1) = navigated (trace s)"
  by (auto simp: get_driver_def launch_def navigated_append split: if_splits)


lemma get_driver_cong:
  "new_driver env' = new_driver env \<Longrightarrow> get_driver env' s = get_driver env s"
  by (simp add: get_driver_def launch_def)

lemma load_Inr:
  assumes "load env s = (Inr docs, s')"
  obtains d s1 where "import_partition_html env = None" and "get_driver env s = (Inr d, s1)"
    and "load_loop env (urls (this s)) (d, [], s1) =
           (None, final_session env d (urls (this s)), docs,
            s1\<lparr>trace := trace s1 @ loop_events env (urls (this s)) (outcomes env d (urls (this s)))\<rparr>)"
    and "docs = successes (outcomes env d (urls (this s)))"
    and "list_all2 (skippable env (continue_on_failure (this s))) (urls (this s))
          (outcomes env d (urls (this s)))"
    and "fst (driver_quit env (final_session env d (urls (this s)))) = None"
    and "s' = s1\<lparr>trace := trace s1 @ loop_events env (urls (this s)) (outcomes env d (urls (this s))) @ [Quit]\<rparr>"
proof -
  from assms have imp: "import_partition_html env = None"
    by (auto simp: load_def split: option.splits)
  from assms imp obtain d s1 where g: "get_driver env s = (Inr d, s1)"
    by (auto simp: load_def split: prod.splits sum.splits)
  have t: "this s1 = this s" using g by (rule get_driver_this)
  from assms imp g t obtain d' s2 where
    l: "load_loop env (urls (this s)) (d, [], s1) = (None, d', docs, s2)"
    by (auto simp: load_def split: prod.splits sum.splits option.splits)
  from load_loop_None_skippable [OF l] t
  have sk: "list_all2 (skippable env (continue_on_failure (this s))) (urls (this s))
          (outcomes env d (urls (this s)))"
    by simp
  then have sk1: "list_all2 (skippable env (continue_on_failure (this s1))) (urls (this s))
          (outcomes env d (urls (this s)))"
    using t by simp
  note c = load_loop_completes [OF sk1, of "[]"]
  from l c have d': "d' = final_session env d (urls (this s))"
    and docs: "docs = successes (outcomes env d (urls (this s)))"
    and s2: "s2 = s1\<lparr>trace := trace s1 @ loop_events env (urls (this s)) (outcomes env d (urls (this s)))\<rparr>"
    by simp_all
  from assms imp g t l have q: "fst (driver_quit env d') = None"
    and s': "s' = s2\<lparr>trace := trace s2 @ [Quit]\<rparr>"
    by (auto simp: load_def split: prod.splits option.splits)
  show ?thesis
  proof (rule that [OF imp g])
    show "load_loop env (urls (this s)) (d, [], s1) =
           (None, final_session env d (urls (this s)), docs,
            s1\<lparr>trace := trace s1 @ loop_events env (urls (this s)) (outcomes env d (urls (this s)))\<rparr>)"
      using l d' s2 by simp
    show "docs = successes (outcomes env d (urls (this s)))" by (rule docs)
    show "list_all2 (skippable env (continue_on_failure (this s))) (urls (this s))
          (outcomes env d (urls (this s)))" by (rule sk)
    show "fst (driver_quit env (final_session env d (urls (this s)))) = None" using q d' by simp
    show "s' = s1\<lparr>trace := trace s1 @ loop_events env (urls (this s)) (outcomes env d (urls (this s))) @ [Quit]\<rparr>"
      using s' s2 by simp
  qed
qed

lemma load_completes:
  assumes imp: "import_partition_html env = None"
    and g: "get_driver env s = (Inr d, s1)"
    and sk: "list_all2 (skippable env (continue_on_failure (this s))) (urls (this s))
          (outcomes env d (urls (this s)))"
    and q: "fst (driver_quit env (final_session env d (urls (this s)))) = None"
  shows "load env s =
     (Inr (successes (outcomes env d (urls (this s)))),
      s1\<lparr>trace := trace s1 @ loop_events env (urls (this s)) (outcomes env d (urls (this s))) @ [Quit]\<rparr>)"
proof -
  have t: "this s1 = this s" using g by (rule get_driver_this)
  from sk t have "list_all2 (skippable env (continue_on_failure (this s1))) (urls (this s))
          (outcomes env d (urls (this s)))"
    by simp
  note c = load_loop_completes [OF this, of "[]"]
  obtain d'' where "driver_quit env (final_session env d (urls (this s))) = (None, d'')"
    using q by (cases "driver_quit env (final_session env d (urls (this s)))") simp
  with imp g t c show ?thesis by (simp add: load_def)
qed

lemma get_driver_no_quit:
  "get_driver env s = (r, s1) \<Longrightarrow> count_list (trace s1) Quit = count_list (trace s) Quit"
  by (auto simp: get_driver_def launch_def split: if_splits)

lemma load_returns_quit_once:
  assumes "load env s = (Inr docs, s')"
  shows "count_list (trace s') Quit = count_list (trace s) Quit + 1"
proof -
  from assms obtain d s1 where g: "get_driver env s = (Inr d, s1)"
    and s': "s' = s1\<lparr>trace := trace s1 @
          loop_events env (urls (this s)) (outcomes env d (urls (this s))) @ [Quit]\<rparr>"
    by (rule load_Inr)
  from g have "count_list (trace s1) Quit = count_list (trace s) Quit"
    by (rule get_driver_no_quit)
  with s' show ?thesis by (simp add: loop_events_no_quit)
qed

subsection \<open>Sessions whose pages do not depend on what was fetched before\<close>



subsection \<open>The test doubles\<close>

lemma lower_chrome: "lower ''chrome'' = ''chrome''"
  by code_simp

lemma lower_firefox: "lower ''firefox'' = ''firefox''"
  by code_simp

lemma lower_Chrome: "lower ''Chrome'' = ''chrome''"
  by code_simp

lemma lower_FIREFOX: "lower ''FIREFOX'' = ''firefox''"
  by code_simp

lemma lower_safari: "lower ''safari'' = ''safari''"
  by code_simp

lemma stub_imports:
  "import_selenium stub_env = None" "import_unstructured stub_env = None"
  "import_partition_html stub_env = None"
  by (simp_all add: stub_env_def)

lemma stub_quit: "driver_quit stub_env d = (None, d)"
  by (simp add: stub_env_def)

lemma stub_fetch_ok:
  "u \<noteq> ''https://bad.test'' \<Longrightarrow> fetch_document stub_env d u = (Inr (page_of u), u)"
  by (simp add: fetch_document_def stub_env_def page_of_def blank_line_def source_metadata_def)

lemma stub_fetch_bad:
  "fetch_document stub_env d ''https://bad.test'' = (Inl (OtherException ''unreachable''), ''https://bad.test'')"
  by (simp add: fetch_document_def stub_env_def)

lemma example_urls:
  "urls (this (example_state cof b)) = [''https://a.test'', ''https://bad.test'', ''https://b.test'']"
  "continue_on_failure (this (example_state cof b)) = cof"
  "browser (this (example_state cof b)) = b"
  "trace (example_state cof b) = []"
  by (simp_all add: example_state_def example_loader_def)

lemma stub_get_driver:
  "lower b = ''chrome'' \<Longrightarrow>
   get_driver stub_env (example_state cof b) =
     (Inr ''about:blank'',
      \<lparr>this = example_loader cof b, trace = [Launch Chrome [''--headless''] None]\<rparr>)"
  by (simp add: get_driver_def launch_def example_state_def example_loader_def
      options_arguments_def stub_env_def)

lemma stub_logged: "logged stub_env u e"
  by (simp add: logged_def stub_env_def)

lemma stub_log_events:
  "log_events stub_env u e = [LoggerError (error_message u (exn_message e))]"
  by (simp add: log_events_def stub_env_def)

lemma stub_log_failure:
  "log_failure stub_env u e s =
     (None, s\<lparr>trace := trace s @ [LoggerError (error_message u (exn_message e))]\<rparr>)"
  by (simp add: log_failure_def stub_env_def)

lemma stub_load_continue:
  "lower b = ''chrome'' \<Longrightarrow>
   load stub_env (example_state True b) =
     (Inr [page_of ''https://a.test'', page_of ''https://b.test''],
      \<lparr>this = example_loader True b,
       trace = [Launch Chrome [''--headless''] None, Get ''https://a.test'',
                Get ''https://bad.test'',
                LoggerError (error_message ''https://bad.test'' ''unreachable''),
                Get ''https://b.test'', Quit]\<rparr>)"
  by (simp add: load_def stub_imports stub_get_driver stub_quit example_loader_def
      stub_fetch_ok stub_fetch_bad stub_log_failure)

lemma quit_fails_fetch: "fetch_document quit_fails_env d u = fetch_document stub_env d u"
  by (rule fetch_document_cong) (simp_all add: quit_fails_env_def)

lemma quit_fails_load:
  "fst (load quit_fails_env (example_state True ''chrome'')) =
     Inl (OtherException ''invalid session id'')"
proof -
  have g: "get_driver quit_fails_env (example_state True ''chrome'') =
      get_driver stub_env (example_state True ''chrome'')"
    by (rule get_driver_cong) (simp add: quit_fails_env_def)
  have l: "log_failure quit_fails_env u e s = log_failure stub_env u e s" for u e s
    by (simp add: log_failure_def quit_fails_env_def split: sum.splits)
  have i: "import_partition_html quit_fails_env = None"
    and q: "driver_quit quit_fails_env d = (Some (OtherException ''invalid session id''), d)" for d
    by (simp_all add: quit_fails_env_def stub_env_def)
  show ?thesis
    by (simp add: load_def i g q l stub_get_driver lower_chrome example_loader_def
        quit_fails_fetch stub_fetch_ok stub_fetch_bad stub_log_failure)
qed

lemma str_fails_fetch: "fetch_document str_fails_env d u = fetch_document stub_env d u"
  by (rule fetch_document_cong) (simp_all add: str_fails_env_def)

lemma str_fails_load:
  "fst (load str_fails_env (example_state True ''chrome'')) =
     Inl (OtherException ''__str__ failed'')"
proof -
  have g: "get_driver str_fails_env (example_state True ''chrome'') =
      get_driver stub_env (example_state True ''chrome'')"
    by (rule get_driver_cong) (simp add: str_fails_env_def)
  have l: "log_failure str_fails_env u e s = (Some (OtherException ''__str__ failed''), s)"
    for u e s
    by (simp add: log_failure_def str_fails_env_def)
  have i: "import_partition_html str_fails_env = None"
    by (simp add: str_fails_env_def stub_env_def)
  show ?thesis
    by (simp add: load_def i g l stub_get_driver lower_chrome example_loader_def
        str_fails_fetch stub_fetch_ok stub_fetch_bad)
qed





section \<open>The claims\<close>

text \<open>
  C1. The session created at the start of \<open>load\<close> is closed exactly once on every path,
  the abort path included. On the paths where \<open>load\<close> returns its list this holds
  (\<open>load_returns_quit_once\<close>). But \<open>driver.quit()\<close> is called after the loop only, outside
  any \<open>finally\<close>: with \<open>continue_on_failure = False\<close> the exception of \<open>https://bad.test\<close>
  leaves \<open>load\<close> from inside the loop, and the trace of the run has the launch of the
  session and the two navigations, and no \<open>Quit\<close>.
\<close>

theorem load_abort_skips_quit:
  "load stub_env (example_state False ''chrome'') =
     (Inl (OtherException ''unreachable''),
      \<lparr>this = example_loader False ''chrome'',
       trace = [Launch Chrome [''--headless''] None, Get ''https://a.test'',
                Get ''https://bad.test'']\<rparr>) \<and>
   count_list (trace (snd (load stub_env (example_state False ''chrome'')))) Quit = 0"
  by (simp add: load_def stub_imports stub_get_driver lower_chrome example_loader_def
      stub_fetch_ok stub_fetch_bad)

text \<open>
  C2. With \<open>continue_on_failure\<close> set, a list of \<open>N\<close> URLs of which \<open>M\<close> fail gives \<open>N - M\<close>
  Documents. As stated this fails: \<open>load\<close> returns nothing when \<open>driver.quit()\<close> raises
  after the loop, nor when building the log message of a failure raises inside the
  \<open>except\<close> block. In both runs one of the three URLs fails, and \<open>load\<close> raises.
\<close>

theorem load_continue_on_failure_counterexample:
  "continue_on_failure (this (example_state True ''chrome'')) \<and>
   length (urls (this (example_state True ''chrome''))) = 3 \<and>
   length (filter isl (outcomes quit_fails_env ''about:blank''
     (urls (this (example_state True ''chrome''))))) = 1 \<and>
   fst (load quit_fails_env (example_state True ''chrome'')) =
     Inl (OtherException ''invalid session id'') \<and>
   length (filter isl (outcomes str_fails_env ''about:blank''
     (urls (this (example_state True ''chrome''))))) = 1 \<and>
   fst (load str_fails_env (example_state True ''chrome'')) =
     Inl (OtherException ''__str__ failed'')"
  by (simp add: example_urls quit_fails_load str_fails_load quit_fails_fetch str_fails_fetch
      stub_fetch_ok stub_fetch_bad)

text \<open>
  C2, amended. With \<open>continue_on_failure\<close> set, on a session that \<open>load\<close> has created, when
  \<open>M\<close> of the \<open>N\<close> URLs fail, every failure with an exception that \<open>except Exception\<close>
  catches and that is logged without raising, and \<open>driver.quit()\<close> returns, \<open>load\<close> returns
  \<open>N - M\<close> Documents: those of the URLs that succeeded, in the order of the list, each with
  the metadata \<open>{"source": url}\<close> of its URL.
\<close>

theorem load_skips_failures:
  assumes "continue_on_failure (this s)"
    and "import_partition_html env = None"
    and "get_driver env s = (Inr d, s1)"
    and "list_all2 (skippable env True) (urls (this s)) (outcomes env d (urls (this s)))"
    and "fst (driver_quit env (final_session env d (urls (this s)))) = None"
    and "length (urls (this s)) = N"
    and "length (filter isl (outcomes env d (urls (this s)))) = M"
  shows "\<exists>docs. fst (load env s) = Inr docs \<and> length docs = N - M \<and>
           docs = successes (outcomes env d (urls (this s))) \<and>
           map metadata docs =
             map (\<lambda>u. [''source'' \<mapsto> u])
               (survivors (urls (this s)) (outcomes env d (urls (this s))))"
proof -
  let ?os = "outcomes env d (urls (this s))"
  from assms(1,4)
  have "list_all2 (skippable env (continue_on_failure (this s))) (urls (this s)) ?os" by simp
  from load_completes [OF assms(2,3) this assms(5)]
  have a: "fst (load env s) = Inr (successes ?os)" by simp
  have b: "length (successes ?os) = N - M"
    using assms(6,7) by (simp add: length_successes length_outcomes)
  have c: "map metadata (successes ?os) =
      map (\<lambda>u. [''source'' \<mapsto> u]) (survivors (urls (this s)) ?os)"
    using successes_metadata [of env d "urls (this s)"]
    unfolding source_metadata_def [abs_def] .
  show ?thesis
    by (rule exI [of _ "successes ?os"]) (intro conjI a b c refl)
qed

theorem load_skips_failures_witness:
  "\<exists>docs. fst (load stub_env (example_state True ''chrome'')) = Inr docs \<and>
     length docs = 3 - 1 \<and>
     map metadata docs =
       map (\<lambda>u. [''source'' \<mapsto> u]) [''https://a.test'', ''https://b.test'']"
proof -
  let ?s = "example_state True ''chrome''"
  have h1: "continue_on_failure (this ?s)" by (simp add: example_urls)
  have h3: "get_driver stub_env ?s =
     (Inr ''about:blank'',
      \<lparr>this = example_loader True ''chrome'', trace = [Launch Chrome [''--headless''] None]\<rparr>)"
    by (simp add: stub_get_driver lower_chrome)
  have h4: "list_all2 (skippable stub_env True) (urls (this ?s))
      (outcomes stub_env ''about:blank'' (urls (this ?s)))"
    by (simp add: example_urls stub_fetch_ok stub_fetch_bad stub_logged)
  have h5: "fst (driver_quit stub_env (final_session stub_env ''about:blank'' (urls (this ?s)))) = None"
    by (simp add: stub_quit)
  have h6: "length (urls (this ?s)) = 3" by (simp add: example_urls)
  have h7: "length (filter isl (outcomes stub_env ''about:blank'' (urls (this ?s)))) = 1"
    by (simp add: example_urls stub_fetch_ok stub_fetch_bad)
  from load_skips_failures [OF h1 stub_imports(3) h3 h4 h5 h6 h7]
  obtain docs where "fst (load stub_env ?s) = Inr docs" "length docs = 3 - 1"
    and "map metadata docs = map (\<lambda>u. [''source'' \<mapsto> u])
       (survivors (urls (this ?s)) (outcomes stub_env ''about:blank'' (urls (this ?s))))"
    by (elim exE conjE)
  moreover have "survivors (urls (this ?s)) (outcomes stub_env ''about:blank'' (urls (this ?s))) =
      [''https://a.test'', ''https://b.test'']"
    by (simp add: example_urls stub_fetch_ok stub_fetch_bad)
  ultimately show ?thesis
    by (intro exI [of _ docs] conjI) (simp_all only:)
qed

text \<open>
  C3. Without \<open>continue_on_failure\<close>, the first URL that fails ends the batch: when the URLs
  before \<open>u\<close> all succeed and \<open>u\<close> fails with \<open>e\<close>, \<open>load\<close> raises \<open>e\<close> (so it returns no
  Document), and the URLs navigated to are those up to \<open>u\<close>, none of the URLs after it.
\<close>

theorem load_aborts_on_first_failure:
  assumes "\<not> continue_on_failure (this s)"
    and "import_partition_html env = None"
    and "get_driver env s = (Inr d, s1)"
    and "urls (this s) = pre @ u # post"
    and "list_all (\<lambda>r. \<not> isl r) (outcomes env d pre)"
    and "fetch_document env (final_session env d pre) u = (Inl e, d')"
  shows "fst (load env s) = Inl e \<and>
         navigated (trace (snd (load env s))) = navigated (trace s) @ pre @ [u]"
proof -
  have t: "this s1 = this s" using assms(3) by (rule get_driver_this)
  from load_loop_all_succeed [OF assms(5)]
  have "list_all2 (skippable env (continue_on_failure (this s1))) pre (outcomes env d pre)" .
  note c = load_loop_completes [OF this, of "[]"]
  let ?s2 = "s1\<lparr>trace := trace s1 @ loop_events env pre (outcomes env d pre)\<rparr>"
  have "load_loop env (pre @ u # post) (d, [], s1) =
          (Some e, d', successes (outcomes env d pre), ?s2\<lparr>trace := trace ?s2 @ [Get u]\<rparr>)"
    using c assms(1,6) t by (simp add: load_loop_append)
  with assms(2,3,4) t
  have l: "load env s = (Inl e, ?s2\<lparr>trace := trace ?s2 @ [Get u]\<rparr>)"
    by (simp add: load_def)
  have "navigated (trace s1) = navigated (trace s)"
    using assms(3) by (rule get_driver_navigated)
  with l show ?thesis
    by (simp add: navigated_append loop_events_navigated length_outcomes)
qed

theorem load_aborts_on_first_failure_witness:
  "fst (load stub_env (example_state False ''chrome'')) = Inl (OtherException ''unreachable'') \<and>
   navigated (trace (snd (load stub_env (example_state False ''chrome'')))) =
     [''https://a.test'', ''https://bad.test'']"
proof -
  let ?s = "example_state False ''chrome''"
  have h1: "\<not> continue_on_failure (this ?s)" by (simp add: example_urls)
  have h3: "get_driver stub_env ?s =
     (Inr ''about:blank'',
      \<lparr>this = example_loader False ''chrome'', trace = [Launch Chrome [''--headless''] None]\<rparr>)"
    by (simp add: stub_get_driver lower_chrome)
  have h4: "urls (this ?s) = [''https://a.test''] @ ''https://bad.test'' # [''https://b.test'']"
    by (simp add: example_urls)
  have h5: "list_all (\<lambda>r. \<not> isl r) (outcomes stub_env ''about:blank'' [''https://a.test''])"
    by (simp add: stub_fetch_ok)
  have h6: "fetch_document stub_env (final_session stub_env ''about:blank'' [''https://a.test''])
              ''https://bad.test'' = (Inl (OtherException ''unreachable''), ''https://bad.test'')"
    by (simp add: stub_fetch_bad)
  from load_aborts_on_first_failure [OF h1 stub_imports(3) h3 h4 h5 h6]
  show ?thesis by (simp add: example_urls)
qed

text \<open>
  C4. Every Document that \<open>load\<close> returns has the metadata \<open>{"source": url}\<close> of the URL
  it was fetched from: the returned list has one Document for each surviving URL, and the
  metadata of the \<open>i\<close>-th Document is the dict with the one key \<open>source\<close>, whose value is
  the \<open>i\<close>-th surviving URL.
\<close>

theorem load_metadata_source:
  assumes "load env s = (Inr docs, s')"
  shows "\<exists>d s1. get_driver env s = (Inr d, s1) \<and>
           map metadata docs =
             map (\<lambda>u. [''source'' \<mapsto> u])
               (survivors (urls (this s)) (outcomes env d (urls (this s)))) \<and>
           length docs = length (survivors (urls (this s)) (outcomes env d (urls (this s)))) \<and>
           (\<forall>i < length docs.
              metadata (docs ! i) ''source'' =
                Some (survivors (urls (this s)) (outcomes env d (urls (this s))) ! i) \<and>
              dom (metadata (docs ! i)) = {''source''})"
proof -
  from assms obtain d s1 where g: "get_driver env s = (Inr d, s1)"
    and docs: "docs = successes (outcomes env d (urls (this s)))"
    by (rule load_Inr)
  let ?sv = "survivors (urls (this s)) (outcomes env d (urls (this s)))"
  have m: "map metadata docs = map (\<lambda>u. [''source'' \<mapsto> u]) ?sv"
    using successes_metadata [of env d "urls (this s)"] docs
    unfolding source_metadata_def [abs_def] by simp
  then have len: "length docs = length ?sv"
    by (rule map_eq_imp_length_eq)
  have "metadata (docs ! i) ''source'' = Some (?sv ! i) \<and> dom (metadata (docs ! i)) = {''source''}"
    if "i < length docs" for i
  proof -
    from that len have "map metadata docs ! i = metadata (docs ! i)"
      and "map (\<lambda>u. [''source'' \<mapsto> u]) ?sv ! i = [''source'' \<mapsto> ?sv ! i]"
      by simp_all
    with m have "metadata (docs ! i) = [''source'' \<mapsto> ?sv ! i]" by simp
    then show ?thesis by simp
  qed
  then have "\<forall>i < length docs.
      metadata (docs ! i) ''source'' = Some (?sv ! i) \<and> dom (metadata (docs ! i)) = {''source''}"
    by (intro allI impI)
  with g m len show ?thesis
    by (intro exI [of _ d] exI [of _ s1] conjI)
qed

theorem load_metadata_source_witness:
  "fst (load stub_env (example_state True ''chrome'')) =
     Inr [page_of ''https://a.test'', page_of ''https://b.test''] \<and>
   metadata ([page_of ''https://a.test'', page_of ''https://b.test''] ! 1) ''source'' =
     Some ''https://b.test'' \<and>
   dom (metadata ([page_of ''https://a.test'', page_of ''https://b.test''] ! 1)) = {''source''}"
proof -
  let ?s = "example_state True ''chrome''"
  let ?docs = "[page_of ''https://a.test'', page_of ''https://b.test'']"
  note l = stub_load_continue [OF lower_chrome]
  from load_metadata_source [OF l] obtain d s1 where
    g: "get_driver stub_env ?s = (Inr d, s1)"
    and ix: "\<forall>i < length ?docs.
        metadata (?docs ! i) ''source'' =
          Some (survivors (urls (this ?s)) (outcomes stub_env d (urls (this ?s))) ! i) \<and>
        dom (metadata (?docs ! i)) = {''source''}"
    by (elim exE conjE)
  have sv: "survivors (urls (this ?s)) (outcomes stub_env d (urls (this ?s))) =
      [''https://a.test'', ''https://b.test'']"
    by (simp add: example_urls stub_fetch_ok stub_fetch_bad)
  have "(1::nat) < length ?docs" by simp
  with ix [rule_format, of 1] have "metadata (?docs ! 1) ''source'' =
          Some (survivors (urls (this ?s)) (outcomes stub_env d (urls (this ?s))) ! 1) \<and>
        dom (metadata (?docs ! 1)) = {''source''}"
    by (simp only:)
  with sv have "metadata (?docs ! 1) ''source'' = Some ''https://b.test'' \<and>
        dom (metadata (?docs ! 1)) = {''source''}"
    by simp
  with l show ?thesis by simp
qed

text \<open>
  C5. For a browser value other than \<open>chrome\<close> and \<open>firefox\<close>, \<open>load\<close> raises the ValueError
  of \<open>_get_driver\<close> before any navigation. As stated this fails: the comparison is made
  on the lowercased value, so \<open>Chrome\<close>, which is neither of the two strings, launches a
  session and the URLs are fetched.
\<close>

theorem load_unsupported_browser_counterexample:
  "''Chrome'' \<noteq> ''chrome'' \<and> ''Chrome'' \<noteq> ''firefox'' \<and>
   fst (load stub_env (example_state True ''Chrome'')) =
     Inr [page_of ''https://a.test'', page_of ''https://b.test''] \<and>
   navigated (trace (snd (load stub_env (example_state True ''Chrome'')))) =
     [''https://a.test'', ''https://bad.test'', ''https://b.test'']"
  by (simp add: stub_load_continue [OF lower_Chrome])

text \<open>
  C5, amended. When the lowercased browser value is neither \<open>chrome\<close> nor \<open>firefox\<close> (and
  the import of the partitioner at the top of \<open>load\<close> has succeeded), \<open>load\<close> raises the
  ValueError of \<open>_get_driver\<close> and the state is the one it started from: no session was
  launched, no URL navigated to, no Document produced.
\<close>

theorem load_invalid_browser:
  assumes "lower (browser (this s)) \<noteq> ''chrome''"
    and "lower (browser (this s)) \<noteq> ''firefox''"
    and "import_partition_html env = None"
  shows "load env s = (Inl (ValueError invalid_browser), s)"
  using assms by (simp add: load_def get_driver_def)

theorem load_invalid_browser_witness:
  "load stub_env (example_state True ''safari'') =
     (Inl (ValueError invalid_browser), example_state True ''safari'')"
proof -
  have "lower (browser (this (example_state True ''safari''))) \<noteq> ''chrome''"
    and "lower (browser (this (example_state True ''safari''))) \<noteq> ''firefox''"
    by (simp_all add: example_urls lower_safari)
  then show ?thesis using stub_imports(3) by (rule load_invalid_browser)
qed

text \<open>
  C6. For every URL that is processed successfully, the \<open>page_content\<close> of its Document is
  the join, with a blank line (two newlines) between them, of the strings of the elements
  that the partitioner returned for the page source read after navigating to that URL.
  Its Document is the one at the position given by the number of URLs before it that
  succeeded, and it carries that URL as its source.
\<close>

theorem load_page_content:
  assumes "load env s = (Inr docs, s')"
    and "get_driver env s = (Inr d, s1)"
    and "urls (this s) = pre @ u # post"
    and "driver_get env (final_session env d pre) u = (None, d1)"
    and "page_source env d1 = (Inr html, d2)"
    and "partition_html env html = Inr els"
    and "map (str_el env) els = map Inr ts"
  shows "length (successes (outcomes env d pre)) < length docs \<and>
         docs ! length (successes (outcomes env d pre)) =
           \<lparr>page_content = join [CHR 0x0A, CHR 0x0A] ts, metadata = [''source'' \<mapsto> u]\<rparr>"
proof -
  let ?d = "final_session env d pre"
  let ?doc = "\<lparr>page_content = join blank_line ts, metadata = source_metadata u\<rparr>"
  from assms(1) obtain d0 s0 where "get_driver env s = (Inr d0, s0)"
    and "docs = successes (outcomes env d0 (urls (this s)))"
    by (rule load_Inr)
  with assms(2,3) have docs: "docs = successes (outcomes env d (pre @ u # post))" by simp
  have f: "fetch_document env ?d u = (Inr ?doc, d2)"
    using assms(4-7) by (rule fetch_document_steps)
  have "docs = successes (outcomes env d pre) @ ?doc # successes (outcomes env d2 post)"
    using f by (simp add: docs outcomes_append successes_append)
  then have "length (successes (outcomes env d pre)) < length docs"
    and "docs ! length (successes (outcomes env d pre)) = ?doc"
    by simp_all
  then show ?thesis by (simp add: blank_line_def source_metadata_def)
qed

theorem load_page_content_witness:
  "fst (load stub_env (example_state True ''chrome'')) =
     Inr [page_of ''https://a.test'', page_of ''https://b.test''] \<and>
   [page_of ''https://a.test'', page_of ''https://b.test''] ! 1 =
     \<lparr>page_content = ''Title'' @ [CHR 0x0A, CHR 0x0A] @ ''https://b.test'',
      metadata = [''source'' \<mapsto> ''https://b.test'']\<rparr>"
proof -
  let ?s = "example_state True ''chrome''"
  note l = stub_load_continue [OF lower_chrome]
  note g = stub_get_driver [OF lower_chrome, of True]
  have h3: "urls (this ?s) = [''https://a.test'', ''https://bad.test''] @ ''https://b.test'' # []"
    by (simp add: example_urls)
  have h4: "driver_get stub_env
      (final_session stub_env ''about:blank'' [''https://a.test'', ''https://bad.test''])
      ''https://b.test'' = (None, ''https://b.test'')"
    by (simp add: stub_env_def)
  have h5: "page_source stub_env ''https://b.test'' = (Inr ''https://b.test'', ''https://b.test'')"
    by (simp add: stub_env_def)
  have h6: "partition_html stub_env ''https://b.test'' = Inr [''Title'', ''https://b.test'']"
    by (simp add: stub_env_def)
  have h7: "map (str_el stub_env) [''Title'', ''https://b.test''] =
      map Inr [''Title'', ''https://b.test'']"
    by (simp add: stub_env_def)
  from load_page_content [OF l g h3 h4 h5 h6 h7]
  have "[page_of ''https://a.test'', page_of ''https://b.test''] !
      length (successes (outcomes stub_env ''about:blank''
        [''https://a.test'', ''https://bad.test''])) =
     \<lparr>page_content = join [CHR 0x0A, CHR 0x0A] [''Title'', ''https://b.test''],
      metadata = [''source'' \<mapsto> ''https://b.test'']\<rparr>"
    by (rule conjunct2)
  moreover have "length (successes (outcomes stub_env ''about:blank''
        [''https://a.test'', ''https://bad.test''])) = 1"
    by (simp add: stub_fetch_ok stub_fetch_bad)
  ultimately have "[page_of ''https://a.test'', page_of ''https://b.test''] ! 1 =
     \<lparr>page_content = ''Title'' @ [CHR 0x0A, CHR 0x0A] @ ''https://b.test'',
      metadata = [''source'' \<mapsto> ''https://b.test'']\<rparr>"
    by simp
  with l show ?thesis by simp
qed

text \<open>
  C7. When the import of selenium raises ImportError the constructor raises a ValueError
  whose message starts with the name of the package, and so for unstructured once selenium
  is there; with both imported, the constructor returns the loader with the five
  attributes as they were passed.
\<close>

theorem init_checks_dependencies:
  "(import_selenium env = Some e \<and> is_ImportError e \<longrightarrow>
      init env us cof b ep h = Inl (ValueError selenium_not_found)) \<and>
   (import_selenium env = None \<and> import_unstructured env = Some e \<and> is_ImportError e \<longrightarrow>
      init env us cof b ep h = Inl (ValueError unstructured_not_found)) \<and>
   (import_selenium env = None \<and> import_unstructured env = None \<longrightarrow>
      init env us cof b ep h =
        Inr \<lparr>urls = us, continue_on_failure = cof, browser = b,
             executable_path = ep, headless = h\<rparr>) \<and>
   take 8 selenium_not_found = ''selenium'' \<and>
   take 12 unstructured_not_found = ''unstructured''"
  by (simp add: init_def selenium_not_found_def unstructured_not_found_def)

theorem init_checks_dependencies_witness:
  "init (stub_env\<lparr>import_selenium := Some (ImportError ''No module named selenium'')\<rparr>)
      [''https://a.test''] True ''chrome'' None True = Inl (ValueError selenium_not_found) \<and>
   init (stub_env\<lparr>import_unstructured := Some (ImportError ''No module named unstructured'')\<rparr>)
      [''https://a.test''] True ''chrome'' None True = Inl (ValueError unstructured_not_found) \<and>
   init stub_env [''https://a.test''] True ''chrome'' None True =
     Inr \<lparr>urls = [''https://a.test''], continue_on_failure = True, browser = ''chrome'',
       executable_path = None, headless = True\<rparr>"
  using
    init_checks_dependencies [of "stub_env\<lparr>import_selenium := Some (ImportError ''No module named selenium'')\<rparr>"
      "ImportError ''No module named selenium''" "[''https://a.test'']" True "''chrome''" None True]
    init_checks_dependencies [of "stub_env\<lparr>import_unstructured := Some (ImportError ''No module named unstructured'')\<rparr>"
      "ImportError ''No module named unstructured''" "[''https://a.test'']" True "''chrome''" None True]
    init_checks_dependencies [of stub_env "ImportError ''No module named selenium''" "[''https://a.test'']" True "''chrome''" None True]
  by (simp add: stub_imports)




text \<open>
  C9. \<open>load\<close> and \<open>_get_driver\<close> leave the loader object as it was, whether they return
  or raise: \<open>urls\<close>, \<open>continue_on_failure\<close>, \<open>browser\<close>, \<open>executable_path\<close> and
  \<open>headless\<close> are the fields of \<open>this\<close>.
\<close>

theorem load_preserves_configuration:
  "this (snd (load env s)) = this s \<and> this (snd (get_driver env s)) = this s"
proof
  obtain r s1 where g: "get_driver env s = (r, s1)" by (cases "get_driver env s")
  then have t1: "this s1 = this s" by (rule get_driver_this)
  show "this (snd (load env s)) = this s"
  proof (cases "import_partition_html env")
    case (Some e)
    then show ?thesis by (simp add: load_def)
  next
    case None
    show ?thesis
    proof (cases r)
      case (Inl e)
      with None g t1 show ?thesis by (simp add: load_def)
    next
      case (Inr d)
      obtain x d' docs s2 where l: "load_loop env (urls (this s1)) (d, [], s1) = (x, d', docs, s2)"
        by (cases "load_loop env (urls (this s1)) (d, [], s1)")
      then have "this s2 = this s1" by (rule load_loop_this)
      with None g Inr l t1 show ?thesis
        by (simp add: load_def split: option.splits prod.splits)
    qed
  qed
  from g t1 show "this (snd (get_driver env s)) = this s" by simp
qed

theorem load_preserves_configuration_witness:
  "this (snd (load stub_env (example_state True ''chrome''))) = example_loader True ''chrome'' \<and>
   this (snd (load stub_env (example_state False ''chrome''))) = example_loader False ''chrome'' \<and>
   this (snd (get_driver stub_env (example_state True ''safari''))) = example_loader True ''safari''"
  using load_preserves_configuration [of stub_env "example_state True ''chrome''"]
    load_preserves_configuration [of stub_env "example_state False ''chrome''"]
    load_preserves_configuration [of stub_env "example_state True ''safari''"]
  by (simp add: example_state_def)

text \<open>
  C10. The browser is matched without regard to case: for a value whose lowercasing is
  \<open>chrome\<close> (or \<open>firefox\<close>), \<open>_get_driver\<close> returns what the constructor of the Chrome (or
  Firefox) webdriver returns, called with the options and the executable path of the
  loader, which is the result and the calls of the lowercase value itself; and the values
  whose lowercasing is neither raise the invalid-browser error, without a call.
\<close>

theorem get_driver_case_insensitive:
  "(lower b = ''chrome'' \<longrightarrow>
      get_driver env (s\<lparr>this := (this s)\<lparr>browser := b\<rparr>\<rparr>) =
        (new_driver env Chrome (if headless (this s) then [''--headless''] else [])
           (executable_path (this s)),
         s\<lparr>this := (this s)\<lparr>browser := b\<rparr>,
           trace := trace s @
             [Launch Chrome (if headless (this s) then [''--headless''] else [])
                (executable_path (this s))]\<rparr>) \<and>
      fst (get_driver env (s\<lparr>this := (this s)\<lparr>browser := b\<rparr>\<rparr>)) =
        fst (get_driver env (s\<lparr>this := (this s)\<lparr>browser := ''chrome''\<rparr>\<rparr>)) \<and>
      trace (snd (get_driver env (s\<lparr>this := (this s)\<lparr>browser := b\<rparr>\<rparr>))) =
        trace (snd (get_driver env (s\<lparr>this := (this s)\<lparr>browser := ''chrome''\<rparr>\<rparr>)))) \<and>
   (lower b = ''firefox'' \<longrightarrow>
      get_driver env (s\<lparr>this := (this s)\<lparr>browser := b\<rparr>\<rparr>) =
        (new_driver env Firefox (if headless (this s) then [''--headless''] else [])
           (executable_path (this s)),
         s\<lparr>this := (this s)\<lparr>browser := b\<rparr>,
           trace := trace s @
             [Launch Firefox (if headless (this s) then [''--headless''] else [])
                (executable_path (this s))]\<rparr>) \<and>
      fst (get_driver env (s\<lparr>this := (this s)\<lparr>browser := b\<rparr>\<rparr>)) =
        fst (get_driver env (s\<lparr>this := (this s)\<lparr>browser := ''firefox''\<rparr>\<rparr>)) \<and>
      trace (snd (get_driver env (s\<lparr>this := (this s)\<lparr>browser := b\<rparr>\<rparr>))) =
        trace (snd (get_driver env (s\<lparr>this := (this s)\<lparr>browser := ''firefox''\<rparr>\<rparr>)))) \<and>
   (lower b \<noteq> ''chrome'' \<and> lower b \<noteq> ''firefox'' \<longrightarrow>
      get_driver env (s\<lparr>this := (this s)\<lparr>browser := b\<rparr>\<rparr>) =
        (Inl (ValueError ''Invalid browser specified. Use 'chrome' or 'firefox'.''),
         s\<lparr>this := (this s)\<lparr>browser := b\<rparr>\<rparr>))"
  by (simp add: get_driver_def launch_def options_arguments_def invalid_browser_def
      lower_chrome lower_firefox)

theorem get_driver_case_insensitive_witness:
  "get_driver stub_env
     ((example_state True ''chrome'')
        \<lparr>this := (this (example_state True ''chrome''))\<lparr>browser := ''Chrome''\<rparr>\<rparr>) =
     (Inr ''about:blank'',
      \<lparr>this = example_loader True ''Chrome'', trace = [Launch Chrome [''--headless''] None]\<rparr>) \<and>
   fst (get_driver stub_env
     ((example_state True ''chrome'')
        \<lparr>this := (this (example_state True ''chrome''))\<lparr>browser := ''FIREFOX''\<rparr>\<rparr>)) =
     new_driver stub_env Firefox [''--headless''] None \<and>
   get_driver stub_env
     ((example_state True ''chrome'')
        \<lparr>this := (this (example_state True ''chrome''))\<lparr>browser := ''safari''\<rparr>\<rparr>) =
     (Inl (ValueError ''Invalid browser specified. Use 'chrome' or 'firefox'.''),
      example_state True ''safari'')"
proof -
  let ?s = "example_state True ''chrome''"
  note c = get_driver_case_insensitive [of "''Chrome''" stub_env ?s,
      THEN conjunct1, THEN mp, OF lower_Chrome, THEN conjunct1]
  note f = get_driver_case_insensitive [of "''FIREFOX''" stub_env ?s,
      THEN conjunct2, THEN conjunct1, THEN mp, OF lower_FIREFOX, THEN conjunct1]
  have n: "lower ''safari'' \<noteq> ''chrome'' \<and> lower ''safari'' \<noteq> ''firefox''"
    by (simp add: lower_safari)
  note x = get_driver_case_insensitive [of "''safari''" stub_env ?s,
      THEN conjunct2, THEN conjunct2, THEN mp, OF n]
  have a: "get_driver stub_env (?s\<lparr>this := (this ?s)\<lparr>browser := ''Chrome''\<rparr>\<rparr>) =
     (Inr ''about:blank'',
      \<lparr>this = example_loader True ''Chrome'', trace = [Launch Chrome [''--headless''] None]\<rparr>)"
    using c by (simp add: example_state_def example_loader_def stub_env_def)
  have b: "fst (get_driver stub_env (?s\<lparr>this := (this ?s)\<lparr>browser := ''FIREFOX''\<rparr>\<rparr>)) =
     new_driver stub_env Firefox [''--headless''] None"
    using f by (simp add: example_state_def example_loader_def)
  have d: "get_driver stub_env (?s\<lparr>this := (this ?s)\<lparr>browser := ''safari''\<rparr>\<rparr>) =
     (Inl (ValueError ''Invalid browser specified. Use 'chrome' or 'firefox'.''),
      example_state True ''safari'')"
    using x by (simp add: example_state_def example_loader_def)
  from a b d show ?thesis by (intro conjI)
qed

end
